theory Spec2Isabelle
  imports Complex_Main "HOL-Library.Sublist"
begin

section \<open>Values exchanged with the driver and with the HTTP client\<close>

text \<open>
  The server (\<^verbatim>\<open>index.ts\<close>, lines 1-160) is a set of Express handlers, each of which
  awaits one or more calls of \<^verbatim>\<open>pool.query\<close> and answers with \<^verbatim>\<open>res.json\<close>. The
  client (lines 160-257) is a React component whose callbacks call \<^verbatim>\<open>fetch\<close>.

  A column value as node-postgres hands it to the handler: a number, a string, a
  boolean or null. A row is the object the driver builds, an ordered list of
  column name and value. JavaScript numbers are modelled as mathematical integers;
  the two agree while magnitudes stay below \<open>2 ^ 53\<close>. Strings are lists of code
  units below 256.
\<close>

datatype sqlval = SInt int | SStr string | SBool bool | SNull

type_synonym row = "(string \<times> sqlval) list"

datatype json =
    JUndefined
  | JNull
  | JBool bool
  | JNum int
  | JStr string
  | JArr "json list"
  | JObj "(string \<times> json) list"

record response =
  status :: nat
  body :: json

fun sqlval_json :: "sqlval \<Rightarrow> json" where
  "sqlval_json (SInt n) = JNum n"
| "sqlval_json (SStr s) = JStr s"
| "sqlval_json (SBool b) = JBool b"
| "sqlval_json SNull = JNull"

definition row_json :: "row \<Rightarrow> json" where
  "row_json r = JObj (map (\<lambda>(k, v). (k, sqlval_json v)) r)"

definition rows_json :: "row list \<Rightarrow> json" where
  "rows_json rs = JArr (map row_json rs)"

text \<open>\<^verbatim>\<open>result.rows[0]\<close>: \<^verbatim>\<open>undefined\<close> on an empty array.\<close>

definition first_row :: "row list \<Rightarrow> json" where
  "first_row rs = (case rs of [] \<Rightarrow> JUndefined | r # _ \<Rightarrow> row_json r)"

text \<open>\<^verbatim>\<open>r.k\<close> on a row object: \<open>None\<close> is \<^verbatim>\<open>undefined\<close>.\<close>

definition field :: "row \<Rightarrow> string \<Rightarrow> sqlval option" where
  "field r k = map_of r k"

text \<open>\<^verbatim>\<open>j.k\<close> on a parsed body: the member of an object, \<open>None\<close> when there is none.\<close>

definition json_member :: "json \<Rightarrow> string \<Rightarrow> json option" where
  "json_member j k = (case j of JObj kvs \<Rightarrow> map_of kvs k | _ \<Rightarrow> None)"

text \<open>\<^verbatim>\<open>res.json(x)\<close> answers with status 200, \<^verbatim>\<open>res.status(500).json({ error: m })\<close>
  with status 500.\<close>

definition res_json :: "json \<Rightarrow> response" where
  "res_json j = \<lparr>status = 200, body = j\<rparr>"

definition res_error :: "string \<Rightarrow> response" where
  "res_error m = \<lparr>status = 500, body = JObj [(''error'', JStr m)]\<rparr>"

section \<open>JavaScript primitives used by the handlers\<close>

text \<open>\<^verbatim>\<open>haystack.includes(needle)\<close>: the needle occurs at some position.\<close>

fun str_includes :: "string \<Rightarrow> string \<Rightarrow> bool" where
  "str_includes [] n = (n = [])"
| "str_includes (c # cs) n = (prefix n (c # cs) \<or> str_includes cs n)"

text \<open>White space and line terminators of ECMAScript among the code units below 256:
  TAB, LF, VT, FF, CR, SP and NBSP.\<close>

definition is_ws :: "char \<Rightarrow> bool" where
  "is_ws c = ((of_char c :: nat) \<in> {9, 10, 11, 12, 13, 32, 160})"

text \<open>\<^verbatim>\<open>s.trim()\<close>.\<close>

definition trim :: "string \<Rightarrow> string" where
  "trim s = rev (dropWhile is_ws (rev (dropWhile is_ws s)))"

text \<open>The value of a digit character in a radix; \<open>None\<close> when the character is not a
  digit of that radix.\<close>

definition digit_of :: "nat \<Rightarrow> char \<Rightarrow> nat option" where
  "digit_of radix c =
     (let n = (of_char c :: nat);
          v = (if 48 \<le> n \<and> n \<le> 57 then Some (n - 48)
               else if 97 \<le> n \<and> n \<le> 122 then Some (n - 87)
               else if 65 \<le> n \<and> n \<le> 90 then Some (n - 55)
               else None)
      in case v of None \<Rightarrow> None | Some d \<Rightarrow> if d < radix then Some d else None)"

text \<open>The longest prefix of digits of the radix, as digit values.\<close>

fun digits_prefix :: "nat \<Rightarrow> string \<Rightarrow> nat list" where
  "digits_prefix radix [] = []"
| "digits_prefix radix (c # cs) =
     (case digit_of radix c of None \<Rightarrow> [] | Some d \<Rightarrow> d # digits_prefix radix cs)"

definition digits_value :: "nat \<Rightarrow> nat list \<Rightarrow> nat" where
  "digits_value radix ds = foldl (\<lambda>a d. a * radix + d) 0 ds"

text \<open>
  \<^verbatim>\<open>parseInt(s)\<close> with no radix argument on a string: leading white space is skipped,
  one sign is read, a prefix \<^verbatim>\<open>0x\<close> or \<^verbatim>\<open>0X\<close> selects radix 16, and the longest
  prefix of digits is the value. \<open>None\<close> is \<^verbatim>\<open>NaN\<close>: there was no digit.
\<close>

definition parseInt_str :: "string \<Rightarrow> int option" where
  "parseInt_str s =
     (let s1 = dropWhile is_ws s;
          neg = (case s1 of [] \<Rightarrow> False | c # _ \<Rightarrow> c = CHR ''-'');
          s2 = (case s1 of [] \<Rightarrow> []
                | c # r \<Rightarrow> if c = CHR ''-'' \<or> c = CHR ''+'' then r else s1);
          hex = (case s2 of
                   a # b # _ \<Rightarrow> a = CHR ''0'' \<and> (b = CHR ''x'' \<or> b = CHR ''X'')
                 | _ \<Rightarrow> False);
          radix = (if hex then 16 else 10);
          s3 = (if hex then drop 2 s2 else s2);
          ds = digits_prefix radix s3
      in if ds = [] then None
         else Some ((if neg then - 1 else 1) * int (digits_value radix ds)))"

text \<open>\<^verbatim>\<open>parseInt(req.query.k as string)\<close>: an absent parameter is \<^verbatim>\<open>undefined\<close>, whose
  string form \<^verbatim>\<open>"undefined"\<close> has no leading digit.\<close>

definition parseInt :: "string option \<Rightarrow> int option" where
  "parseInt q = (case q of None \<Rightarrow> None | Some s \<Rightarrow> parseInt_str s)"

text \<open>\<^verbatim>\<open>parseInt(v)\<close> on a column value: the value is converted to a string first, so
  a boolean or null gives \<^verbatim>\<open>NaN\<close>, as does a missing property.\<close>

definition parseInt_val :: "sqlval option \<Rightarrow> int option" where
  "parseInt_val v =
     (case v of
        Some (SStr s) \<Rightarrow> parseInt_str s
      | Some (SInt n) \<Rightarrow> Some n
      | _ \<Rightarrow> None)"

text \<open>\<^verbatim>\<open>x || d\<close> on a number: \<^verbatim>\<open>NaN\<close> and \<^verbatim>\<open>0\<close> are falsy.\<close>

definition or_default :: "int option \<Rightarrow> int \<Rightarrow> int" where
  "or_default x d = (case x of None \<Rightarrow> d | Some n \<Rightarrow> if n = 0 then d else n)"

text \<open>\<^verbatim>\<open>Math.ceil(a / b)\<close> with \<open>a\<close> possibly \<^verbatim>\<open>NaN\<close>. The quotient is a real number.
  Division by zero gives an infinity or \<^verbatim>\<open>NaN\<close>; both, like \<^verbatim>\<open>NaN\<close> itself, are
  \<open>None\<close> here and serialise to \<^verbatim>\<open>null\<close>.\<close>

definition Math_ceil_div :: "int option \<Rightarrow> int \<Rightarrow> int option" where
  "Math_ceil_div a b =
     (case a of None \<Rightarrow> None
      | Some n \<Rightarrow> if b = 0 then None else Some \<lceil>real_of_int n / real_of_int b\<rceil>)"

definition num_json :: "int option \<Rightarrow> json" where
  "num_json x = (case x of None \<Rightarrow> JNull | Some n \<Rightarrow> JNum n)"

section \<open>Statements sent to the pool\<close>

text \<open>
  One constructor for each SQL text of \<^verbatim>\<open>index.ts\<close>, carrying the bound parameters:
  \<^verbatim>\<open>SELECT * FROM todos\<close>,
  \<^verbatim>\<open>INSERT INTO todos (text) VALUES ($1) RETURNING *\<close>,
  \<^verbatim>\<open>CREATE TABLE todos (id SERIAL PRIMARY KEY, text VARCHAR(255) NOT NULL)\<close>,
  \<^verbatim>\<open>UPDATE todos SET text = $1 WHERE id = $2 RETURNING *\<close>,
  \<^verbatim>\<open>DELETE FROM todos WHERE id = $1\<close>,
  \<^verbatim>\<open>SELECT * FROM todos LIMIT $1 OFFSET $2\<close>,
  \<^verbatim>\<open>SELECT COUNT(*) FROM todos\<close>,
  \<^verbatim>\<open>SELECT * FROM todos WHERE text ILIKE $1\<close>,
  \<^verbatim>\<open>SELECT * FROM todos WHERE created_at BETWEEN $1 AND $2\<close>,
  \<^verbatim>\<open>UPDATE todos SET completed = TRUE WHERE id = $1 RETURNING *\<close>.
  A parameter that is \<^verbatim>\<open>undefined\<close> in the handler is \<open>None\<close>.
\<close>

datatype coltype = SerialPrimaryKey | VarcharNotNull nat

datatype stmt =
    SelectAll
  | InsertTodo "string option"
  | CreateTable "(string \<times> coltype) list"
  | UpdateText "string option" string
  | DeleteById string
  | SelectPage int int
  | CountAll
  | SearchILike string
  | DateRange "string option" "string option"
  | SetCompleted string

text \<open>\<^verbatim>\<open>await pool.query(...)\<close> either throws an \<^verbatim>\<open>Error\<close>, of which the handlers read
  the message only, or resolves to a result, of which they read \<^verbatim>\<open>rows\<close> only. The
  pool is a parameter of every handler; the store behind it is threaded through.\<close>

type_synonym 'db pool = "stmt \<Rightarrow> 'db \<Rightarrow> (string + row list) \<times> 'db"

section \<open>The API service\<close>

definition missing_relation :: string where
  \<open>missing_relation = ''relation "todos" does not exist''\<close>

definition table_missing_message :: string where
  \<open>table_missing_message = ''The "todos" table does not exist in the database.''\<close>

definition todos_columns :: "(string \<times> coltype) list" where
  "todos_columns = [(''id'', SerialPrimaryKey), (''text'', VarcharNotNull 255)]"

text \<open>The message of the \<^verbatim>\<open>TypeError\<close> raised by \<^verbatim>\<open>rows[0].count\<close> on an empty result.\<close>

definition count_of_undefined :: string where
  \<open>count_of_undefined = ''Cannot read properties of undefined (reading 'count')''\<close>

definition get_root :: response where
  "get_root = res_json (JObj [(''message'', JStr ''Hello World!'')])"

definition get_todos :: "'db pool \<Rightarrow> 'db \<Rightarrow> response \<times> 'db" where
  "get_todos query db =
     (case query SelectAll db of
        (Inr rs, db1) \<Rightarrow> (res_json (rows_json rs), db1)
      | (Inl m, db1) \<Rightarrow>
          (if str_includes m missing_relation
           then res_error table_missing_message
           else res_error m, db1))"

definition post_todos :: "'db pool \<Rightarrow> string option \<Rightarrow> 'db \<Rightarrow> response \<times> 'db" where
  "post_todos query txt db =
     (case query (InsertTodo txt) db of
        (Inr rs, db1) \<Rightarrow> (res_json (first_row rs), db1)
      | (Inl m, db1) \<Rightarrow>
          if str_includes m missing_relation
          then (case query (CreateTable todos_columns) db1 of
                  (Inl cm, db2) \<Rightarrow> (res_error cm, db2)
                | (Inr _, db2) \<Rightarrow>
                    (case query (InsertTodo txt) db2 of
                       (Inl cm, db3) \<Rightarrow> (res_error cm, db3)
                     | (Inr rs, db3) \<Rightarrow> (res_json (first_row rs), db3)))
          else (res_error m, db1))"

definition put_todo :: "'db pool \<Rightarrow> string \<Rightarrow> string option \<Rightarrow> 'db \<Rightarrow> response \<times> 'db" where
  "put_todo query ident txt db =
     (case query (UpdateText txt ident) db of
        (Inr rs, db1) \<Rightarrow> (res_json (first_row rs), db1)
      | (Inl m, db1) \<Rightarrow> (res_error m, db1))"

definition delete_todo :: "'db pool \<Rightarrow> string \<Rightarrow> 'db \<Rightarrow> response \<times> 'db" where
  "delete_todo query ident db =
     (case query (DeleteById ident) db of
        (Inr _, db1) \<Rightarrow> (res_json (JObj [(''message'', JStr ''Todo deleted'')]), db1)
      | (Inl m, db1) \<Rightarrow> (res_error m, db1))"

text \<open>The three constants computed before the \<^verbatim>\<open>try\<close> of the paginated route.\<close>

definition page_of :: "string option \<Rightarrow> int" where
  "page_of p = or_default (parseInt p) 1"

definition limit_of :: "string option \<Rightarrow> int" where
  "limit_of l = or_default (parseInt l) 10"

definition offset_of :: "string option \<Rightarrow> string option \<Rightarrow> int" where
  "offset_of p l = (page_of p - 1) * limit_of l"

definition get_paginated ::
  "'db pool \<Rightarrow> string option \<Rightarrow> string option \<Rightarrow> 'db \<Rightarrow> response \<times> 'db" where
  "get_paginated query p l db =
     (let page = page_of p; limit = limit_of l; offset = offset_of p l
      in case query (SelectPage limit offset) db of
           (Inl m, db1) \<Rightarrow> (res_error m, db1)
         | (Inr rs, db1) \<Rightarrow>
             (case query CountAll db1 of
                (Inl m, db2) \<Rightarrow> (res_error m, db2)
              | (Inr [], db2) \<Rightarrow> (res_error count_of_undefined, db2)
              | (Inr (c # _), db2) \<Rightarrow>
                  (let totalCount = parseInt_val (field c ''count'')
                   in (res_json (JObj
                         [(''todos'', rows_json rs),
                          (''currentPage'', JNum page),
                          (''totalPages'', num_json (Math_ceil_div totalCount limit)),
                          (''totalCount'', num_json totalCount)]), db2))))"

text \<open>The template literal \<^verbatim>\<open>`%${searchText}%`\<close>: an \<^verbatim>\<open>undefined\<close> value is spliced in
  as the nine characters \<^verbatim>\<open>undefined\<close>.\<close>

definition search_pattern :: "string option \<Rightarrow> string" where
  "search_pattern q = ''%'' @ (case q of None \<Rightarrow> ''undefined'' | Some s \<Rightarrow> s) @ ''%''"

definition get_search :: "'db pool \<Rightarrow> string option \<Rightarrow> 'db \<Rightarrow> response \<times> 'db" where
  "get_search query q db =
     (case query (SearchILike (search_pattern q)) db of
        (Inr rs, db1) \<Rightarrow> (res_json (rows_json rs), db1)
      | (Inl m, db1) \<Rightarrow> (res_error m, db1))"

definition get_date_range ::
  "'db pool \<Rightarrow> string option \<Rightarrow> string option \<Rightarrow> 'db \<Rightarrow> response \<times> 'db" where
  "get_date_range query startDate endDate db =
     (case query (DateRange startDate endDate) db of
        (Inr rs, db1) \<Rightarrow> (res_json (rows_json rs), db1)
      | (Inl m, db1) \<Rightarrow> (res_error m, db1))"

definition get_count :: "'db pool \<Rightarrow> 'db \<Rightarrow> response \<times> 'db" where
  "get_count query db =
     (case query CountAll db of
        (Inl m, db1) \<Rightarrow> (res_error m, db1)
      | (Inr [], db1) \<Rightarrow> (res_error count_of_undefined, db1)
      | (Inr (c # _), db1) \<Rightarrow>
          (res_json (JObj [(''count'', num_json (parseInt_val (field c ''count'')))]), db1))"

definition patch_complete :: "'db pool \<Rightarrow> string \<Rightarrow> 'db \<Rightarrow> response \<times> 'db" where
  "patch_complete query ident db =
     (case query (SetCompleted ident) db of
        (Inr rs, db1) \<Rightarrow> (res_json (first_row rs), db1)
      | (Inl m, db1) \<Rightarrow> (res_error m, db1))"

text \<open>The routes registered on \<^verbatim>\<open>app\<close>, with the request data each handler reads:
  path parameter \<^verbatim>\<open>id\<close>, body member \<^verbatim>\<open>text\<close>, query parameters.\<close>

datatype request =
    GetRoot
  | GetTodos
  | PostTodos "string option"
  | PutTodo string "string option"
  | DeleteTodo string
  | GetPaginated "string option" "string option"
  | GetSearch "string option"
  | GetDateRange "string option" "string option"
  | GetCount
  | PatchComplete string

fun app :: "'db pool \<Rightarrow> request \<Rightarrow> 'db \<Rightarrow> response \<times> 'db" where
  "app query GetRoot db = (get_root, db)"
| "app query GetTodos db = get_todos query db"
| "app query (PostTodos txt) db = post_todos query txt db"
| "app query (PutTodo ident txt) db = put_todo query ident txt db"
| "app query (DeleteTodo ident) db = delete_todo query ident db"
| "app query (GetPaginated p l) db = get_paginated query p l db"
| "app query (GetSearch q) db = get_search query q db"
| "app query (GetDateRange a b) db = get_date_range query a b db"
| "app query GetCount db = get_count query db"
| "app query (PatchComplete ident) db = patch_complete query ident db"

text \<open>A pool that records, next to its store, every statement it is given, in order.\<close>

definition logged :: "'db pool \<Rightarrow> ('db \<times> stmt list) pool" where
  "logged query s = (\<lambda>(db, tr). case query s db of (r, db1) \<Rightarrow> (r, (db1, tr @ [s])))"

section \<open>The data store\<close>

text \<open>
  The handlers are written against PostgreSQL. This section gives the meaning of the
  statements above on one table \<^verbatim>\<open>todos\<close>: the store is either without the table
  (\<open>None\<close>) or holds its column names, its rows in scan order and the next value of
  the sequence behind \<^verbatim>\<open>id SERIAL\<close>. The column \<^verbatim>\<open>id\<close> is an integer primary key
  and \<^verbatim>\<open>text\<close> is \<^verbatim>\<open>VARCHAR(255) NOT NULL\<close>, as in the only \<^verbatim>\<open>CREATE TABLE\<close> of the
  source; a column the statement does not set is null.
\<close>

record table =
  t_cols :: "string list"
  t_rows :: "row list"
  t_seq :: int

type_synonym db = "table option"

definition undefined_table :: string where
  \<open>undefined_table = ''relation "todos" does not exist''\<close>

definition duplicate_table :: string where
  \<open>duplicate_table = ''relation "todos" already exists''\<close>

definition undefined_completed :: string where
  \<open>undefined_completed = ''column "completed" of relation "todos" does not exist''\<close>

definition not_null_violation :: string where
  \<open>not_null_violation =
     ''null value in column "text" of relation "todos" violates not-null constraint''\<close>

definition unique_violation :: string where
  \<open>unique_violation = ''duplicate key value violates unique constraint "todos_pkey"''\<close>

definition string_too_long :: string where
  "string_too_long = ''value too long for type character varying(255)''"

definition invalid_integer :: "string \<Rightarrow> string" where
  \<open>invalid_integer s = ''invalid input syntax for type integer: "'' @ s @ ''"''\<close>

definition integer_out_of_range :: "string \<Rightarrow> string" where
  \<open>integer_out_of_range s = ''value "'' @ s @ ''" is out of range for type integer''\<close>

text \<open>The store's reading of a text parameter compared with the integer column: white
  space, an optional sign, decimal digits, white space; the value fits 32 bits.\<close>

definition is_space :: "char \<Rightarrow> bool" where
  "is_space c = ((of_char c :: nat) \<in> {9, 10, 11, 12, 13, 32})"

definition int4_in :: "string \<Rightarrow> string + int" where
  "int4_in s =
     (let s1 = dropWhile is_space s;
          neg = (case s1 of [] \<Rightarrow> False | c # _ \<Rightarrow> c = CHR ''-'');
          s2 = (case s1 of [] \<Rightarrow> []
                | c # r \<Rightarrow> if c = CHR ''-'' \<or> c = CHR ''+'' then r else s1);
          ds = digits_prefix 10 s2;
          rest = dropWhile is_space (drop (length ds) s2);
          v = (if neg then - 1 else 1) * int (digits_value 10 ds)
      in if ds = [] \<or> rest \<noteq> [] then Inl (invalid_integer s)
         else if v < - 2147483648 \<or> 2147483647 < v then Inl (integer_out_of_range s)
         else Inr v)"

text \<open>The decimal form of a count, which the driver delivers as a string.\<close>

fun show_nat :: "nat \<Rightarrow> string" where
  "show_nat n =
     (if n < 10 then [char_of (48 + n)]
      else show_nat (n div 10) @ [char_of (48 + n mod 10)])"

text \<open>\<^verbatim>\<open>LIKE\<close>: a percent sign stands for any sequence of characters, an underscore
  for any one character, and a backslash makes the next character stand for itself.
  \<^verbatim>\<open>ILIKE\<close> compares the lower-case forms; only the letters A to Z are folded here.\<close>

definition backslash :: char where
  "backslash = CHR 0x5C"

fun like_match :: "string \<Rightarrow> string \<Rightarrow> bool" where
  "like_match [] t = (t = [])"
| "like_match (p # ps) t =
     (if p = CHR ''%'' then
        (like_match ps t \<or> (case t of [] \<Rightarrow> False | _ # ts \<Rightarrow> like_match (p # ps) ts))
      else if p = CHR ''_'' then
        (case t of [] \<Rightarrow> False | _ # ts \<Rightarrow> like_match ps ts)
      else if p = backslash then
        (case ps of [] \<Rightarrow> False
         | e # ps' \<Rightarrow> (case t of [] \<Rightarrow> False | c # ts \<Rightarrow> c = e \<and> like_match ps' ts))
      else (case t of [] \<Rightarrow> False | c # ts \<Rightarrow> c = p \<and> like_match ps ts))"

text \<open>A pattern whose last character is an escape with nothing to escape. The store
  raises an error on such a pattern once matching reaches its end; what it does with
  one is left to the parameter of \<open>pg\<close> below.\<close>

fun dangling_escape :: "string \<Rightarrow> bool" where
  "dangling_escape [] = False"
| "dangling_escape [c] = (c = backslash)"
| "dangling_escape (c # d # cs) =
     (if c = backslash then dangling_escape cs else dangling_escape (d # cs))"

definition lower_ascii :: "char \<Rightarrow> char" where
  "lower_ascii c =
     (let n = (of_char c :: nat) in if 65 \<le> n \<and> n \<le> 90 then char_of (n + 32) else c)"

definition ilike :: "string \<Rightarrow> string \<Rightarrow> bool" where
  "ilike t p = like_match (map lower_ascii p) (map lower_ascii t)"


definition has_id :: "int \<Rightarrow> row \<Rightarrow> bool" where
  "has_id n r = (field r ''id'' = Some (SInt n))"

definition set_field :: "string \<Rightarrow> sqlval \<Rightarrow> row \<Rightarrow> row" where
  "set_field k v r = map (\<lambda>(k', v'). if k' = k then (k', v) else (k', v')) r"

definition pg_select_all :: "db \<Rightarrow> (string + row list) \<times> db" where
  "pg_select_all db =
     (case db of None \<Rightarrow> (Inl undefined_table, db)
      | Some t \<Rightarrow> (Inr (t_rows t), db))"

text \<open>The sequence value is taken before the new row is checked and is not given
  back when the insert fails. A value longer than 255 characters is accepted, cut to
  255, when everything beyond is spaces.\<close>

definition pg_insert :: "string option \<Rightarrow> db \<Rightarrow> (string + row list) \<times> db" where
  "pg_insert txt db =
     (case db of None \<Rightarrow> (Inl undefined_table, db)
      | Some t \<Rightarrow>
          (let i = t_seq t; t1 = t\<lparr>t_seq := i + 1\<rparr>
           in case txt of
                None \<Rightarrow> (Inl not_null_violation, Some t1)
              | Some s \<Rightarrow>
                  if \<exists>c \<in> set (drop 255 s). c \<noteq> CHR '' ''
                  then (Inl string_too_long, Some t1)
                  else if \<exists>r \<in> set (t_rows t). has_id i r
                  then (Inl unique_violation, Some t1)
                  else
                    (let r = map (\<lambda>c. (c, if c = ''id'' then SInt i
                                            else if c = ''text'' then SStr (take 255 s)
                                            else SNull)) (t_cols t)
                     in (Inr [r], Some (t1\<lparr>t_rows := t_rows t @ [r]\<rparr>)))))"

definition pg_create :: "(string \<times> coltype) list \<Rightarrow> db \<Rightarrow> (string + row list) \<times> db" where
  "pg_create cs db =
     (case db of
        Some t \<Rightarrow> (Inl duplicate_table, db)
      | None \<Rightarrow> (Inr [], Some \<lparr>t_cols = map fst cs, t_rows = [], t_seq = 1\<rparr>))"

definition pg_delete :: "string \<Rightarrow> db \<Rightarrow> (string + row list) \<times> db" where
  "pg_delete ident db =
     (case db of None \<Rightarrow> (Inl undefined_table, db)
      | Some t \<Rightarrow>
          (case int4_in ident of
             Inl m \<Rightarrow> (Inl m, db)
           | Inr n \<Rightarrow> (Inr [], Some (t\<lparr>t_rows := filter (\<lambda>r. \<not> has_id n r) (t_rows t)\<rparr>))))"

definition pg_select_page :: "int \<Rightarrow> int \<Rightarrow> db \<Rightarrow> (string + row list) \<times> db" where
  "pg_select_page lmt ofs db =
     (case db of None \<Rightarrow> (Inl undefined_table, db)
      | Some t \<Rightarrow>
          if ofs < 0 then (Inl ''OFFSET must not be negative'', db)
          else if lmt < 0 then (Inl ''LIMIT must not be negative'', db)
          else (Inr (take (nat lmt) (drop (nat ofs) (t_rows t))), db))"

definition pg_count :: "db \<Rightarrow> (string + row list) \<times> db" where
  "pg_count db =
     (case db of None \<Rightarrow> (Inl undefined_table, db)
      | Some t \<Rightarrow> (Inr [[(''count'', SStr (show_nat (length (t_rows t))))]], db))"

definition text_ilike :: "string \<Rightarrow> row \<Rightarrow> bool" where
  "text_ilike p r = (case field r ''text'' of Some (SStr s) \<Rightarrow> ilike s p | _ \<Rightarrow> False)"

definition pg_search :: "string \<Rightarrow> db \<Rightarrow> (string + row list) \<times> db" where
  "pg_search p db =
     (case db of None \<Rightarrow> (Inl undefined_table, db)
      | Some t \<Rightarrow> (Inr (filter (text_ilike p) (t_rows t)), db))"

definition pg_set_completed :: "string \<Rightarrow> db \<Rightarrow> (string + row list) \<times> db" where
  "pg_set_completed ident db =
     (case db of None \<Rightarrow> (Inl undefined_table, db)
      | Some t \<Rightarrow>
          if ''completed'' \<notin> set (t_cols t) then (Inl undefined_completed, db)
          else (case int4_in ident of
                  Inl m \<Rightarrow> (Inl m, db)
                | Inr n \<Rightarrow>
                    (Inr (map (set_field ''completed'' (SBool True))
                            (filter (has_id n) (t_rows t))),
                     Some (t\<lparr>t_rows :=
                             map (\<lambda>r. if has_id n r
                                      then set_field ''completed'' (SBool True) r
                                      else r) (t_rows t)\<rparr>))))"

text \<open>The store as a pool. The two statements no property below depends on, and a
  search pattern with a dangling escape, are left to a parameter.\<close>

fun pg :: "db pool \<Rightarrow> db pool" where
  "pg other SelectAll db = pg_select_all db"
| "pg other (InsertTodo txt) db = pg_insert txt db"
| "pg other (CreateTable cs) db = pg_create cs db"
| "pg other (UpdateText txt ident) db = other (UpdateText txt ident) db"
| "pg other (DeleteById ident) db = pg_delete ident db"
| "pg other (SelectPage lmt ofs) db = pg_select_page lmt ofs db"
| "pg other CountAll db = pg_count db"
| "pg other (SearchILike p) db =
     (if dangling_escape p then other (SearchILike p) db else pg_search p db)"
| "pg other (DateRange a b) db = other (DateRange a b) db"
| "pg other (SetCompleted ident) db = pg_set_completed ident db"

text \<open>Two pools on which every statement throws: one with a message of its own, one
  with the message of the missing table.\<close>

definition unsupported :: "db pool" where
  "unsupported s db = (Inl ''unsupported'', db)"


text \<open>What the declarations of the table guarantee: there is a key column, every row
  has exactly the columns of the table, and no two rows have the same key.\<close>

definition row_id :: "row \<Rightarrow> sqlval option" where
  "row_id r = field r ''id''"

definition wf_table :: "table \<Rightarrow> bool" where
  "wf_table t =
     (''id'' \<in> set (t_cols t) \<and>
      (\<forall>r \<in> set (t_rows t). map fst r = t_cols t) \<and>
      distinct (map row_id (t_rows t)))"

definition wf_db :: "db \<Rightarrow> bool" where
  "wf_db db = (case db of None \<Rightarrow> True | Some t \<Rightarrow> wf_table t)"

section \<open>The client view\<close>

text \<open>The component state \<^verbatim>\<open>todos\<close> and \<^verbatim>\<open>input\<close>. A call of \<^verbatim>\<open>fetch\<close> followed by
  \<^verbatim>\<open>response.json()\<close> either rejects (\<open>Inl\<close>) or yields the parsed body; the network
  is a parameter. Each callback returns the new state, the requests it sent and the
  lines it wrote with \<^verbatim>\<open>console.error\<close>.\<close>

record client =
  todos :: "json list"
  input :: string

record http_request =
  url :: string
  verb :: string
  headers :: "(string \<times> string) list"
  payload :: "json option"

type_synonym network = "http_request \<Rightarrow> string + json"

definition post_request :: "string \<Rightarrow> http_request" where
  "post_request s =
     \<lparr>url = ''http://localhost:3000/todos'', verb = ''POST'',
      headers = [(''Content-Type'', ''application/json'')],
      payload = Some (JObj [(''text'', JStr s)])\<rparr>"

definition addTodo :: "network \<Rightarrow> client \<Rightarrow> client \<times> http_request list \<times> string list" where
  "addTodo net st =
     (if trim (input st) \<noteq> []
      then (let req = post_request (trim (input st))
            in case net req of
                 Inr newTodo \<Rightarrow> (st\<lparr>todos := todos st @ [newTodo], input := []\<rparr>, [req], [])
               | Inl e \<Rightarrow> (st, [req], [''Error adding todo:'']))
      else (st, [], []))"

section \<open>A sample store\<close>

text \<open>A table of two rows with the two columns the application creates, used where a
  property is tried on a concrete store.\<close>

definition sample_table :: table where
  "sample_table =
     \<lparr>t_cols = [''id'', ''text''],
      t_rows = [[(''id'', SInt 1), (''text'', SStr ''Buy Milk'')],
                [(''id'', SInt 2), (''text'', SStr ''walk'')]],
      t_seq = 3\<rparr>"

text \<open>A table that also has the two columns the other routes refer to.\<close>

definition full_table :: table where
  "full_table =
     \<lparr>t_cols = [''id'', ''text'', ''completed'', ''created_at''],
      t_rows = [[(''id'', SInt 1), (''text'', SStr ''Buy Milk''),
                 (''completed'', SNull), (''created_at'', SNull)],
                [(''id'', SInt 2), (''text'', SStr ''walk''),
                 (''completed'', SBool True), (''created_at'', SNull)]],
      t_seq = 3\<rparr>"

text \<open>The table left behind by the first \<^verbatim>\<open>POST /todos\<close> with text \<^verbatim>\<open>a\<close> on a store
  without table.\<close>

definition healed_table :: table where
  "healed_table =
     \<lparr>t_cols = [''id'', ''text''],
      t_rows = [[(''id'', SInt 1), (''text'', SStr ''a'')]],
      t_seq = 2\<rparr>"

section \<open>Strings\<close>


section \<open>Listing todos\<close>



section \<open>Creating todos\<close>

lemma logged_apply: "logged query s (db, tr) = (fst (query s db), snd (query s db), tr @ [s])"
  by (simp add: logged_def split: prod.splits)





section \<open>Error responses\<close>

text \<open>
  C7. Whatever the pool does, every route answers with status 200 or 500, never with
  a status from 400 to 499; an answer that is not 200 has status 500 and the body
  \<^verbatim>\<open>{"error": m}\<close> for some message \<open>m\<close>. When every statement throws, every route
  but the liveness route answers 500.
\<close>

theorem app_error_shape:
  "(status (fst (app query req db)) = 200 \<or> status (fst (app query req db)) = 500) \<and>
   (status (fst (app query req db)) \<noteq> 200 \<longrightarrow>
      (\<exists>m. fst (app query req db) = \<lparr>status = 500, body = JObj [(''error'', JStr m)]\<rparr>)) \<and>
   \<not> (400 \<le> status (fst (app query req db)) \<and> status (fst (app query req db)) < 500) \<and>
   ((\<forall>s d. \<exists>m d'. query s d = (Inl m, d')) \<and> req \<noteq> GetRoot \<longrightarrow>
      status (fst (app query req db)) = 500)"
proof -
  have a: "(status (fst (app query req db)) = 200 \<or> status (fst (app query req db)) = 500) \<and>
   (status (fst (app query req db)) \<noteq> 200 \<longrightarrow>
      (\<exists>m. fst (app query req db) = \<lparr>status = 500, body = JObj [(''error'', JStr m)]\<rparr>))"
    by (cases req)
     (auto simp: get_root_def get_todos_def post_todos_def put_todo_def delete_todo_def
        get_paginated_def get_search_def get_date_range_def get_count_def patch_complete_def
        res_json_def res_error_def Let_def
      split: prod.splits sum.splits list.splits if_splits)
  have b: "status (fst (app query req db)) = 500"
    if f: "\<forall>s d. \<exists>m d'. query s d = (Inl m, d')" and r: "req \<noteq> GetRoot"
  proof -
    have q: "\<And>s d. \<exists>m d'. query s d = (Inl m, d')" using f by blast
    show ?thesis
    proof (cases req)
      case GetRoot
      with r show ?thesis by simp
    next
      case GetTodos
      from q [of SelectAll db] show ?thesis
        by (auto simp: GetTodos get_todos_def res_error_def)
    next
      case (PostTodos x)
      from q [of "InsertTodo x" db] obtain m d1 where
        i: "query (InsertTodo x) db = (Inl m, d1)" by blast
      from q [of "CreateTable todos_columns" d1] obtain cm d2 where
        c: "query (CreateTable todos_columns) d1 = (Inl cm, d2)" by blast
      from i c show ?thesis
        by (simp add: PostTodos post_todos_def res_error_def)
    next
      case (PutTodo ident x)
      from q [of "UpdateText x ident" db] show ?thesis
        by (auto simp: PutTodo put_todo_def res_error_def)
    next
      case (DeleteTodo ident)
      from q [of "DeleteById ident" db] show ?thesis
        by (auto simp: DeleteTodo delete_todo_def res_error_def)
    next
      case (GetPaginated p l)
      from q [of "SelectPage (limit_of l) (offset_of p l)" db] show ?thesis
        by (auto simp: GetPaginated get_paginated_def res_error_def Let_def)
    next
      case (GetSearch x)
      from q [of "SearchILike (search_pattern x)" db] show ?thesis
        by (auto simp: GetSearch get_search_def res_error_def)
    next
      case (GetDateRange x y)
      from q [of "DateRange x y" db] show ?thesis
        by (auto simp: GetDateRange get_date_range_def res_error_def)
    next
      case GetCount
      from q [of CountAll db] show ?thesis
        by (auto simp: GetCount get_count_def res_error_def)
    next
      case (PatchComplete ident)
      from q [of "SetCompleted ident" db] show ?thesis
        by (auto simp: PatchComplete patch_complete_def res_error_def)
    qed
  qed
  from a b show ?thesis by auto
qed

theorem app_error_shape_witness:
  "fst (app (pg unsupported) (DeleteTodo ''abc'') (Some sample_table)) =
     \<lparr>status = 500, body = JObj [(''error'', JStr (invalid_integer ''abc''))]\<rparr> \<and>
   fst (app unsupported (PutTodo ''7'' None) (Some sample_table)) =
     \<lparr>status = 500, body = JObj [(''error'', JStr ''unsupported'')]\<rparr>"
proof -
  have a: "status (fst (app (pg unsupported) (DeleteTodo ''abc'') (Some sample_table))) \<noteq> 200"
    by (simp add: delete_todo_def pg_delete_def int4_in_def is_space_def digit_of_def
        res_error_def)
  have b: "\<forall>s d. \<exists>m d'. unsupported s (d :: db) = (Inl m, d')"
    by (simp add: unsupported_def)
  have c: "status (fst (app unsupported (PutTodo ''7'' None) (Some sample_table))) = 500"
    using app_error_shape [of unsupported "PutTodo ''7'' None" "Some sample_table"] b by blast
  have d: "\<exists>m. fst (app (pg unsupported) (DeleteTodo ''abc'') (Some sample_table)) =
      \<lparr>status = 500, body = JObj [(''error'', JStr m)]\<rparr>"
    using app_error_shape [of "pg unsupported" "DeleteTodo ''abc''" "Some sample_table"] a
    by blast
  from c d show ?thesis
    by (auto simp: delete_todo_def pg_delete_def int4_in_def is_space_def digit_of_def
        res_error_def put_todo_def unsupported_def)
qed

section \<open>Pagination\<close>

declare show_nat.simps [simp del]

lemma digit_of_dec:
  "48 \<le> (of_char c :: nat) \<Longrightarrow> (of_char c :: nat) \<le> 57 \<Longrightarrow> digit_of 10 c = Some (of_char c - 48)"
  by (auto simp: digit_of_def Let_def)

lemma show_nat_dec:
  "c \<in> set (show_nat n) \<Longrightarrow> 48 \<le> (of_char c :: nat) \<and> (of_char c :: nat) \<le> 57"
proof (induction n rule: show_nat.induct)
  case (1 n)
  show ?case
  proof (cases "n < 10")
    case True
    with "1.prems" show ?thesis by (subst (asm) show_nat.simps) auto
  next
    case False
    from "1.prems" False have "c \<in> set (show_nat (n div 10)) \<or> c = char_of (48 + n mod 10)"
      by (subst (asm) show_nat.simps) auto
    then show ?thesis
    proof
      assume "c \<in> set (show_nat (n div 10))"
      with "1.IH" False show ?thesis by simp
    next
      assume c: "c = char_of (48 + n mod 10)"
      have "n mod 10 < 10" by simp
      then have "(48 + n mod 10) mod 256 = 48 + n mod 10" by simp
      with c show ?thesis by simp
    qed
  qed
qed

lemma show_nat_not_Nil: "show_nat n \<noteq> []"
  by (subst show_nat.simps) simp

lemma digits_prefix_dec:
  "\<forall>c \<in> set s. 48 \<le> (of_char c :: nat) \<and> (of_char c :: nat) \<le> 57 \<Longrightarrow>
   digits_prefix 10 s = map (\<lambda>c. of_char c - 48) s"
  by (induction s) (simp_all add: digit_of_dec)

lemma digits_value_snoc: "digits_value r (ds @ [d]) = digits_value r ds * r + d"
  by (simp add: digits_value_def)

lemma digits_value_show_nat:
  "digits_value 10 (map (\<lambda>c. of_char c - 48) (show_nat n)) = n"
proof (induction n rule: show_nat.induct)
  case (1 n)
  show ?case
  proof (cases "n < 10")
    case True
    then have "(48 + n) mod 256 = 48 + n" by simp
    with True show ?thesis
      by (subst show_nat.simps) (simp add: digits_value_def)
  next
    case False
    have "n mod 10 < 10" by simp
    then have m: "(48 + n mod 10) mod 256 = 48 + n mod 10" by simp
    from False "1.IH" have "digits_value 10 (map (\<lambda>c. of_char c - 48) (show_nat (n div 10))) = n div 10"
      by simp
    with False m show ?thesis
      by (subst show_nat.simps) (simp add: digits_value_snoc)
  qed
qed

text \<open>The count that the store delivers as a decimal string is read back exactly.\<close>

lemma parseInt_str_show_nat: "parseInt_str (show_nat n) = Some (int n)"
proof -
  obtain c cs where s: "show_nat n = c # cs"
    using show_nat_not_Nil [of n] by (cases "show_nat n") auto
  have dec: "\<forall>x \<in> set (c # cs). 48 \<le> (of_char x :: nat) \<and> (of_char x :: nat) \<le> 57"
    using show_nat_dec [of _ n] s by auto
  then have c: "48 \<le> (of_char c :: nat)" "(of_char c :: nat) \<le> 57" by auto
  have ws: "\<not> is_ws c" using c by (auto simp: is_ws_def)
  have sg: "c \<noteq> CHR ''-''" "c \<noteq> CHR ''+''" using c by auto
  have hx: "\<not> (case c # cs of a # b # _ \<Rightarrow> a = CHR ''0'' \<and> (b = CHR ''x'' \<or> b = CHR ''X'') | _ \<Rightarrow> False)"
  proof (cases cs)
    case Nil
    then show ?thesis by simp
  next
    case (Cons b bs)
    with dec have "48 \<le> (of_char b :: nat)" "(of_char b :: nat) \<le> 57" by auto
    then have "b \<noteq> CHR ''x''" "b \<noteq> CHR ''X''" by auto
    with Cons show ?thesis by simp
  qed
  have dp: "digits_prefix 10 (c # cs) = map (\<lambda>c. of_char c - 48) (c # cs)"
    using dec by (rule digits_prefix_dec)
  have dv: "digits_value 10 (map (\<lambda>c. of_char c - 48) (c # cs)) = n"
    using digits_value_show_nat [of n] s by simp
  have "parseInt_str (c # cs) = Some (int n)"
    unfolding parseInt_str_def Let_def using ws sg hx dp dv
    by (simp del: digits_prefix.simps list.map)
  with s show ?thesis by simp
qed

lemma limit_of_nonzero: "limit_of l \<noteq> 0"
  by (simp add: limit_of_def or_default_def split: option.splits)

lemma page_of_nonzero: "page_of p \<noteq> 0"
  by (simp add: page_of_def or_default_def split: option.splits)

text \<open>A parameter in which no character is a decimal digit does not parse.\<close>

lemma digit_of_zero: "digit_of 10 (CHR ''0'') = Some 0"
  by (simp add: digit_of_def)

lemma parseInt_str_no_digit:
  assumes "\<forall>c \<in> set s. digit_of 10 c = None"
  shows "parseInt_str s = None"
proof (cases "dropWhile is_ws s")
  case Nil
  show ?thesis unfolding parseInt_str_def Let_def Nil by simp
next
  case (Cons c r)
  have "set (dropWhile is_ws s) \<subseteq> set s" by (auto dest: set_dropWhileD)
  then have "set (c # r) \<subseteq> set s" unfolding Cons .
  with assms have dc: "digit_of 10 c = None" and dr: "\<forall>x \<in> set r. digit_of 10 x = None"
    by auto
  from dc digit_of_zero have c0: "c \<noteq> CHR ''0''" by auto
  show ?thesis
  proof (cases "c = CHR ''-'' \<or> c = CHR ''+''")
    case False
    with dc c0 show ?thesis
      by (simp add: parseInt_str_def Let_def Cons split: list.splits)
  next
    case True
    show ?thesis
    proof (cases r)
      case Nil
      with True show ?thesis by (auto simp: parseInt_str_def Let_def Cons)
    next
      case (Cons a r')
      with dr have da: "digit_of 10 a = None" by simp
      with digit_of_zero have "a \<noteq> CHR ''0''" by auto
      with da True Cons show ?thesis
        by (auto simp: parseInt_str_def Let_def \<open>dropWhile is_ws s = c # r\<close>
            split: list.splits)
    qed
  qed
qed




text \<open>On the store, with a limit and an offset that are not negative, the page holds the
  rows from the offset on, at most as many as the limit, and the total is the number
  of rows of the table.\<close>

lemma get_paginated_pg:
  assumes "0 \<le> offset_of p l" and "0 \<le> limit_of l"
  shows "get_paginated (pg other) p l (Some t) =
     (\<lparr>status = 200,
       body = JObj [(''todos'', rows_json (take (nat (limit_of l))
                                  (drop (nat (offset_of p l)) (t_rows t)))),
                    (''currentPage'', JNum (page_of p)),
                    (''totalPages'',
                       JNum \<lceil>real (length (t_rows t)) / real_of_int (limit_of l)\<rceil>),
                    (''totalCount'', JNum (int (length (t_rows t))))]\<rparr>, Some t)"
  using assms limit_of_nonzero [of l]
  by (simp add: get_paginated_def Let_def pg_select_page_def pg_count_def parseInt_val_def
      field_def parseInt_str_show_nat Math_ceil_div_def num_json_def res_json_def)




section \<open>Rows and keys\<close>

lemma field_set_field_other: "k' \<noteq> k \<Longrightarrow> field (set_field k v r) k' = field r k'"
  by (induction r) (auto simp: field_def set_field_def)

lemma field_set_field_same:
  "k \<in> set (map fst r) \<Longrightarrow> field (set_field k v r) k = Some v"
  by (induction r) (auto simp: field_def set_field_def)

lemma map_fst_set_field: "map fst (set_field k v r) = map fst r"
  by (induction r) (auto simp: set_field_def)

lemma set_field_idem: "set_field k v (set_field k v r) = set_field k v r"
  by (induction r) (auto simp: set_field_def)

lemma has_id_set_field: "has_id n (set_field ''completed'' v r) = has_id n r"
  by (simp add: has_id_def field_set_field_other)

lemma row_id_set_field: "row_id (set_field ''completed'' v r) = row_id r"
  by (simp add: row_id_def field_set_field_other)

lemma has_id_row_id: "has_id n r \<longleftrightarrow> row_id r = Some (SInt n)"
  by (simp add: has_id_def row_id_def)

lemma filter_key_le_one:
  "distinct (map f xs) \<Longrightarrow> length (filter (\<lambda>x. f x = a) xs) \<le> 1"
proof (induction xs)
  case Nil
  show ?case by simp
next
  case (Cons x xs)
  show ?case
  proof (cases "f x = a")
    case True
    from Cons.prems have "f x \<notin> f ` set xs" by simp
    with True have "\<forall>y \<in> set xs. f y \<noteq> a" by blast
    then have "filter (\<lambda>x. f x = a) xs = []" by (simp add: filter_empty_conv)
    with True show ?thesis by simp
  next
    case False
    with Cons show ?thesis by simp
  qed
qed

lemma filter_key_single:
  "distinct (map f xs) \<Longrightarrow> x \<in> set xs \<Longrightarrow> filter (\<lambda>y. f y = f x) xs = [x]"
proof (induction xs)
  case Nil
  then show ?case by simp
next
  case (Cons y ys)
  show ?case
  proof (cases "y = x")
    case True
    from Cons.prems have "f y \<notin> f ` set ys" by simp
    with True have "\<forall>z \<in> set ys. f z \<noteq> f x" by (metis imageI)
    then have "filter (\<lambda>z. f z = f x) ys = []" by (simp add: filter_empty_conv)
    with True show ?thesis by simp
  next
    case False
    with Cons.prems have x: "x \<in> set ys" and d: "distinct (map f ys)" and "f y \<notin> f ` set ys"
      by auto
    then have "f y \<noteq> f x" by auto
    with Cons.IH [OF d x] show ?thesis by simp
  qed
qed

section \<open>Deleting todos\<close>

lemma pg_delete_twice:
  "pg_delete ident (snd (pg_delete ident db)) = pg_delete ident db"
  by (auto simp: pg_delete_def split: option.splits sum.splits)

lemma delete_todo_twice:
  "delete_todo (pg other) ident (snd (delete_todo (pg other) ident db)) =
   delete_todo (pg other) ident db"
proof -
  obtain r d where e: "pg_delete ident db = (r, d)" by (cases "pg_delete ident db")
  with pg_delete_twice [of ident db] have "pg_delete ident d = (r, d)" by simp
  with e show ?thesis by (cases r) (simp_all add: delete_todo_def)
qed

text \<open>
  C1, as stated, fails: the handler answers 500 when the statement throws, as it does
  on a store without the table and on an id that is not an integer.
\<close>

theorem delete_todo_counterexample:
  "delete_todo (pg unsupported) ''1'' None =
     (\<lparr>status = 500, body = JObj [(''error'', JStr undefined_table)]\<rparr>, None) \<and>
   delete_todo (pg unsupported) ''abc'' (Some sample_table) =
     (\<lparr>status = 500, body = JObj [(''error'', JStr (invalid_integer ''abc''))]\<rparr>,
      Some sample_table)"
  by (simp add: delete_todo_def pg_delete_def res_error_def int4_in_def is_space_def
      digit_of_def)

text \<open>
  C1, amended. Whenever the \<^verbatim>\<open>DELETE\<close> statement succeeds, \<^verbatim>\<open>DELETE /todos/:id\<close>
  answers 200 with \<^verbatim>\<open>{message: "Todo deleted"}\<close>; on the store this is the case for
  every table and every well-formed integer id, whether or not a row has that id.
  When the statement throws, the answer is 500 with the thrown message. For
  every id and every store, a second delete answers as the first did and leaves the
  store as the first left it.
\<close>

theorem delete_todo_idempotent:
  "(\<forall>x db1. query (DeleteById ident) qdb = (Inr x, db1) \<longrightarrow>
      delete_todo query ident qdb =
        (\<lparr>status = 200, body = JObj [(''message'', JStr ''Todo deleted'')]\<rparr>, db1)) \<and>
   (\<forall>m db1. query (DeleteById ident) qdb = (Inl m, db1) \<longrightarrow>
      delete_todo query ident qdb =
        (\<lparr>status = 500, body = JObj [(''error'', JStr m)]\<rparr>, db1)) \<and>
   (\<forall>t n. db = Some t \<and> int4_in ident = Inr n \<longrightarrow>
      fst (delete_todo (pg other) ident db) =
        \<lparr>status = 200, body = JObj [(''message'', JStr ''Todo deleted'')]\<rparr>) \<and>
   delete_todo (pg other) ident (snd (delete_todo (pg other) ident db)) =
     delete_todo (pg other) ident db"
proof -
  have a: "\<forall>x db1. query (DeleteById ident) qdb = (Inr x, db1) \<longrightarrow>
      delete_todo query ident qdb =
        (\<lparr>status = 200, body = JObj [(''message'', JStr ''Todo deleted'')]\<rparr>, db1)"
    by (simp add: delete_todo_def res_json_def)
  have e: "\<forall>m db1. query (DeleteById ident) qdb = (Inl m, db1) \<longrightarrow>
      delete_todo query ident qdb =
        (\<lparr>status = 500, body = JObj [(''error'', JStr m)]\<rparr>, db1)"
    by (simp add: delete_todo_def res_error_def)
  have b: "\<forall>t n. db = Some t \<and> int4_in ident = Inr n \<longrightarrow>
      fst (delete_todo (pg other) ident db) =
        \<lparr>status = 200, body = JObj [(''message'', JStr ''Todo deleted'')]\<rparr>"
    by (simp add: delete_todo_def pg_delete_def res_json_def)
  from a e b delete_todo_twice [of other ident db] show ?thesis by blast
qed

lemma int4_in_1: "int4_in ''1'' = Inr 1"
  by (simp add: int4_in_def is_space_def digit_of_def digits_value_def)

lemma int4_in_7: "int4_in ''7'' = Inr 7"
  by (simp add: int4_in_def is_space_def digit_of_def digits_value_def)

lemma int4_in_abc: "int4_in ''abc'' = Inl (invalid_integer ''abc'')"
  by (simp add: int4_in_def is_space_def digit_of_def)

theorem delete_todo_idempotent_witness:
  "delete_todo (pg unsupported) ''1'' (Some sample_table) =
     (\<lparr>status = 200, body = JObj [(''message'', JStr ''Todo deleted'')]\<rparr>,
      Some (sample_table\<lparr>t_rows := [[(''id'', SInt 2), (''text'', SStr ''walk'')]]\<rparr>)) \<and>
   delete_todo (pg unsupported) ''1''
       (Some (sample_table\<lparr>t_rows := [[(''id'', SInt 2), (''text'', SStr ''walk'')]]\<rparr>)) =
     (\<lparr>status = 200, body = JObj [(''message'', JStr ''Todo deleted'')]\<rparr>,
      Some (sample_table\<lparr>t_rows := [[(''id'', SInt 2), (''text'', SStr ''walk'')]]\<rparr>)) \<and>
   fst (delete_todo (pg unsupported) ''7'' (Some sample_table)) =
     \<lparr>status = 200, body = JObj [(''message'', JStr ''Todo deleted'')]\<rparr> \<and>
   delete_todo (pg unsupported) ''1'' None =
     (\<lparr>status = 500, body = JObj [(''error'', JStr undefined_table)]\<rparr>, None)"
proof -
  let ?t' = "sample_table\<lparr>t_rows := [[(''id'', SInt 2), (''text'', SStr ''walk'')]]\<rparr>"
  have m: "pg unsupported (DeleteById ''1'') None = (Inl undefined_table, None)"
    by (simp add: pg_delete_def)
  from delete_todo_idempotent [of "pg unsupported" "''1''" None None unsupported] m
  have d: "delete_todo (pg unsupported) ''1'' None =
     (\<lparr>status = 500, body = JObj [(''error'', JStr undefined_table)]\<rparr>, None)"
    by blast
  note th = delete_todo_idempotent
    [of "pg unsupported" "''1''" "Some sample_table" "Some sample_table" unsupported]
  have q: "pg unsupported (DeleteById ''1'') (Some sample_table) = (Inr [], Some ?t')"
    by (simp add: pg_delete_def int4_in_1 sample_table_def has_id_def field_def)
  from th q have a: "delete_todo (pg unsupported) ''1'' (Some sample_table) =
     (\<lparr>status = 200, body = JObj [(''message'', JStr ''Todo deleted'')]\<rparr>, Some ?t')"
    by blast
  from th have "delete_todo (pg unsupported) ''1''
      (snd (delete_todo (pg unsupported) ''1'' (Some sample_table))) =
    delete_todo (pg unsupported) ''1'' (Some sample_table)"
    by blast
  with a have b: "delete_todo (pg unsupported) ''1'' (Some ?t') =
     (\<lparr>status = 200, body = JObj [(''message'', JStr ''Todo deleted'')]\<rparr>, Some ?t')"
    by simp
  have c: "fst (delete_todo (pg unsupported) ''7'' (Some sample_table)) =
     \<lparr>status = 200, body = JObj [(''message'', JStr ''Todo deleted'')]\<rparr>"
    using delete_todo_idempotent
      [of "pg unsupported" "''7''" "Some sample_table" "Some sample_table" unsupported]
      int4_in_7 by blast
  from a b c d show ?thesis by blast
qed

text \<open>
  C10. \<^verbatim>\<open>DELETE /todos/:id\<close> issues the one \<^verbatim>\<open>DELETE\<close> statement and nothing else. It
  leaves a missing table missing and the columns and the sequence of a table as they
  were. With an id that is no integer the table is unchanged. With the integer \<open>n\<close>
  no row is added, the rows whose key is not \<open>n\<close> stay as they were, in their order,
  every row that went had the key \<open>n\<close>, and, keys being unique, at most one row went.
\<close>

theorem delete_todo_frame:
  "snd (snd (delete_todo (logged (pg other)) ident (db, []))) = [DeleteById ident] \<and>
   (db = None \<longrightarrow> fst (snd (delete_todo (logged (pg other)) ident (db, []))) = None) \<and>
   (\<forall>t. db = Some t \<longrightarrow>
      (\<exists>t'. fst (snd (delete_todo (logged (pg other)) ident (db, []))) = Some t' \<and>
         t_cols t' = t_cols t \<and> t_seq t' = t_seq t \<and>
         (\<forall>m. int4_in ident = Inl m \<longrightarrow> t' = t) \<and>
         (\<forall>n. int4_in ident = Inr n \<longrightarrow>
            set (t_rows t') \<subseteq> set (t_rows t) \<and>
            filter (\<lambda>r. \<not> has_id n r) (t_rows t') = filter (\<lambda>r. \<not> has_id n r) (t_rows t) \<and>
            (\<forall>r \<in> set (t_rows t). r \<notin> set (t_rows t') \<longrightarrow> has_id n r) \<and>
            (wf_table t \<longrightarrow> length (t_rows t) \<le> length (t_rows t') + 1))))"
proof -
  have tr: "snd (snd (delete_todo (logged (pg other)) ident (db, []))) = [DeleteById ident]"
    by (simp add: delete_todo_def logged_apply split: prod.splits sum.splits)
  have st: "fst (snd (delete_todo (logged (pg other)) ident (db, []))) = snd (pg_delete ident db)"
    by (simp add: delete_todo_def logged_apply split: prod.splits sum.splits)
  have none: "db = None \<longrightarrow> snd (pg_delete ident db) = None"
    by (simp add: pg_delete_def)
  have some: "\<exists>t'. snd (pg_delete ident db) = Some t' \<and>
         t_cols t' = t_cols t \<and> t_seq t' = t_seq t \<and>
         (\<forall>m. int4_in ident = Inl m \<longrightarrow> t' = t) \<and>
         (\<forall>n. int4_in ident = Inr n \<longrightarrow>
            set (t_rows t') \<subseteq> set (t_rows t) \<and>
            filter (\<lambda>r. \<not> has_id n r) (t_rows t') = filter (\<lambda>r. \<not> has_id n r) (t_rows t) \<and>
            (\<forall>r \<in> set (t_rows t). r \<notin> set (t_rows t') \<longrightarrow> has_id n r) \<and>
            (wf_table t \<longrightarrow> length (t_rows t) \<le> length (t_rows t') + 1))"
    if db: "db = Some t" for t
  proof (cases "int4_in ident")
    case (Inl m)
    with db show ?thesis by (simp add: pg_delete_def)
  next
    case (Inr n)
    have len: "length (t_rows t) \<le> length (filter (\<lambda>r. \<not> has_id n r) (t_rows t)) + 1"
      if "wf_table t"
    proof -
      from that have "distinct (map row_id (t_rows t))" by (simp add: wf_table_def)
      then have "length (filter (\<lambda>r. row_id r = Some (SInt n)) (t_rows t)) \<le> 1"
        by (rule filter_key_le_one)
      moreover have "has_id n = (\<lambda>r. row_id r = Some (SInt n))"
        by (simp add: fun_eq_iff has_id_row_id)
      ultimately have "length (filter (has_id n) (t_rows t)) \<le> 1"
        by simp
      moreover have "length (filter (has_id n) (t_rows t)) +
          length (filter (\<lambda>r. \<not> has_id n r) (t_rows t)) = length (t_rows t)"
        by (rule sum_length_filter_compl)
      ultimately show ?thesis by linarith
    qed
    from db Inr len show ?thesis by (auto simp: pg_delete_def)
  qed
  from none some have "(db = None \<longrightarrow> snd (pg_delete ident db) = None) \<and>
   (\<forall>t. db = Some t \<longrightarrow>
      (\<exists>t'. snd (pg_delete ident db) = Some t' \<and>
         t_cols t' = t_cols t \<and> t_seq t' = t_seq t \<and>
         (\<forall>m. int4_in ident = Inl m \<longrightarrow> t' = t) \<and>
         (\<forall>n. int4_in ident = Inr n \<longrightarrow>
            set (t_rows t') \<subseteq> set (t_rows t) \<and>
            filter (\<lambda>r. \<not> has_id n r) (t_rows t') = filter (\<lambda>r. \<not> has_id n r) (t_rows t) \<and>
            (\<forall>r \<in> set (t_rows t). r \<notin> set (t_rows t') \<longrightarrow> has_id n r) \<and>
            (wf_table t \<longrightarrow> length (t_rows t) \<le> length (t_rows t') + 1))))"
    by blast
  with tr show ?thesis unfolding st by blast
qed

lemma wf_sample_table: "wf_table sample_table"
  by (simp add: wf_table_def sample_table_def row_id_def field_def)

theorem delete_todo_frame_witness:
  "wf_table sample_table \<and>
   snd (snd (delete_todo (logged (pg unsupported)) ''1'' (Some sample_table, []))) =
     [DeleteById ''1''] \<and>
   (\<exists>t'. fst (snd (delete_todo (logged (pg unsupported)) ''1'' (Some sample_table, []))) =
       Some t' \<and>
     filter (\<lambda>r. \<not> has_id 1 r) (t_rows t') =
       filter (\<lambda>r. \<not> has_id 1 r) (t_rows sample_table) \<and>
     length (t_rows sample_table) \<le> length (t_rows t') + 1) \<and>
   fst (snd (delete_todo (logged (pg unsupported)) ''abc'' (Some sample_table, []))) =
     Some sample_table \<and>
   fst (snd (delete_todo (logged (pg unsupported)) ''1'' (None, []))) = None"
proof -
  note th = delete_todo_frame [of unsupported "''1''" "Some sample_table"]
  from th have tr: "snd (snd (delete_todo (logged (pg unsupported)) ''1'' (Some sample_table, []))) =
     [DeleteById ''1'']" by blast
  from th obtain t' where
    t: "fst (snd (delete_todo (logged (pg unsupported)) ''1'' (Some sample_table, []))) = Some t'"
    and n: "\<forall>n. int4_in ''1'' = Inr n \<longrightarrow>
            set (t_rows t') \<subseteq> set (t_rows sample_table) \<and>
            filter (\<lambda>r. \<not> has_id n r) (t_rows t') =
              filter (\<lambda>r. \<not> has_id n r) (t_rows sample_table) \<and>
            (\<forall>r \<in> set (t_rows sample_table). r \<notin> set (t_rows t') \<longrightarrow> has_id n r) \<and>
            (wf_table sample_table \<longrightarrow> length (t_rows sample_table) \<le> length (t_rows t') + 1)"
    by blast
  from n int4_in_1 wf_sample_table
  have "filter (\<lambda>r. \<not> has_id 1 r) (t_rows t') =
       filter (\<lambda>r. \<not> has_id 1 r) (t_rows sample_table) \<and>
     length (t_rows sample_table) \<le> length (t_rows t') + 1"
    by blast
  with t have ex: "\<exists>t'. fst (snd (delete_todo (logged (pg unsupported)) ''1'' (Some sample_table, []))) =
       Some t' \<and>
     filter (\<lambda>r. \<not> has_id 1 r) (t_rows t') =
       filter (\<lambda>r. \<not> has_id 1 r) (t_rows sample_table) \<and>
     length (t_rows sample_table) \<le> length (t_rows t') + 1"
    by blast
  from delete_todo_frame [of unsupported "''abc''" "Some sample_table"] int4_in_abc
  have bad: "fst (snd (delete_todo (logged (pg unsupported)) ''abc'' (Some sample_table, []))) =
     Some sample_table"
    by auto
  from delete_todo_frame [of unsupported "''1''" None]
  have none: "fst (snd (delete_todo (logged (pg unsupported)) ''1'' (None, []))) = None"
    by blast
  from wf_sample_table tr ex bad none show ?thesis by blast
qed

section \<open>The invariant of the store\<close>

lemma map_of_tabulate:
  "map_of (map (\<lambda>c. (c, f c)) cs) k = (if k \<in> set cs then Some (f k) else None)"
  by (induction cs) auto

lemma wf_pg_insert:
  assumes "wf_db db"
  shows "wf_db (snd (pg_insert x db))"
proof (cases db)
  case None
  then show ?thesis by (simp add: pg_insert_def wf_db_def)
next
  case (Some t)
  with assms have wf: "wf_table t" by (simp add: wf_db_def)
  let ?i = "t_seq t"
  have keep: "wf_table (t\<lparr>t_seq := ?i + 1\<rparr>)" using wf by (simp add: wf_table_def)
  show ?thesis
  proof (cases x)
    case None
    with Some keep show ?thesis by (simp add: pg_insert_def wf_db_def Let_def)
  next
    case (Some s)
    let ?r = "map (\<lambda>c. (c, if c = ''id'' then SInt ?i
                            else if c = ''text'' then SStr (take 255 s)
                            else SNull)) (t_cols t)"
    have cols: "map fst ?r = t_cols t" by (simp add: comp_def)
    from wf have "''id'' \<in> set (t_cols t)" by (simp add: wf_table_def)
    then have rid: "row_id ?r = Some (SInt ?i)"
      by (simp add: row_id_def field_def map_of_tabulate)
    have new: "wf_table (t\<lparr>t_seq := ?i + 1, t_rows := t_rows t @ [?r]\<rparr>)"
      if "\<not> (\<exists>r \<in> set (t_rows t). has_id ?i r)"
    proof -
      from that have "Some (SInt ?i) \<notin> row_id ` set (t_rows t)"
        by (auto simp: has_id_row_id)
      with wf rid cols show ?thesis by (simp add: wf_table_def)
    qed
    from \<open>db = Some t\<close> Some keep new show ?thesis
      by (simp add: pg_insert_def wf_db_def Let_def)
  qed
qed

lemma wf_pg_create: "wf_db db \<Longrightarrow> wf_db (snd (pg_create todos_columns db))"
  by (cases db) (simp_all add: pg_create_def wf_db_def wf_table_def todos_columns_def)

lemma wf_pg_delete: "wf_db db \<Longrightarrow> wf_db (snd (pg_delete ident db))"
  by (cases db; cases "int4_in ident")
     (auto simp: pg_delete_def wf_db_def wf_table_def distinct_map_filter)

lemma wf_pg_set_completed:
  assumes "wf_db db"
  shows "wf_db (snd (pg_set_completed ident db))"
proof (cases db)
  case None
  then show ?thesis by (simp add: pg_set_completed_def wf_db_def)
next
  case (Some t)
  with assms have wf: "wf_table t" by (simp add: wf_db_def)
  let ?f = "\<lambda>n r. if has_id n r then set_field ''completed'' (SBool True) r else r"
  have ids: "map row_id (map (?f n) (t_rows t)) = map row_id (t_rows t)" for n
    by (simp add: row_id_set_field comp_def)
  have "wf_table (t\<lparr>t_rows := map (?f n) (t_rows t)\<rparr>)" for n
    using wf ids [of n] by (auto simp: wf_table_def map_fst_set_field simp del: map_map)
  with Some wf show ?thesis
    by (cases "int4_in ident") (simp_all add: pg_set_completed_def wf_db_def)
qed

lemma dangling_escape_snoc: "\<not> dangling_escape (s @ ''%'')"
  by (induction s rule: dangling_escape.induct) (simp_all add: backslash_def)

lemma search_pattern_no_dangling: "\<not> dangling_escape (search_pattern q)"
proof -
  have "search_pattern q = (''%'' @ (case q of None \<Rightarrow> ''undefined'' | Some s \<Rightarrow> s)) @ ''%''"
    by (simp add: search_pattern_def)
  then show ?thesis by (simp only: dangling_escape_snoc not_False_eq_True)
qed

text \<open>Every route whose statements the store model covers keeps the invariant.\<close>

lemma app_preserves_wf:
  assumes "wf_db db" and "\<forall>ident x. req \<noteq> PutTodo ident x" and "\<forall>a b. req \<noteq> GetDateRange a b"
  shows "wf_db (snd (app (pg other) req db))"
proof (cases req)
  case GetRoot
  with assms show ?thesis by simp
next
  case GetTodos
  with assms show ?thesis
    by (auto simp: get_todos_def pg_select_all_def split: option.splits)
next
  case (PostTodos x)
  have "wf_db (snd (post_todos (pg other) x db))"
    using wf_pg_insert [OF assms(1), of x]
      wf_pg_create [OF wf_pg_insert [OF assms(1), of x]]
      wf_pg_insert [OF wf_pg_create [OF wf_pg_insert [OF assms(1), of x]], of x]
    by (auto simp: post_todos_def split: prod.splits sum.splits)
  with PostTodos show ?thesis by simp
next
  case (PutTodo ident x)
  with assms show ?thesis by simp
next
  case (DeleteTodo ident)
  with wf_pg_delete [OF assms(1), of ident] show ?thesis
    by (auto simp: delete_todo_def split: prod.splits sum.splits)
next
  case (GetPaginated p l)
  with assms(1) show ?thesis
    by (auto simp: get_paginated_def Let_def pg_select_page_def pg_count_def
        split: option.splits if_splits)
next
  case (GetSearch q)
  with assms(1) search_pattern_no_dangling [of q] show ?thesis
    by (auto simp: get_search_def pg_search_def split: option.splits)
next
  case (GetDateRange a b)
  with assms show ?thesis by simp
next
  case GetCount
  with assms(1) show ?thesis
    by (auto simp: get_count_def pg_count_def split: option.splits)
next
  case (PatchComplete ident)
  with wf_pg_set_completed [OF assms(1), of ident] show ?thesis
    by (auto simp: patch_complete_def split: prod.splits sum.splits)
qed

section \<open>Completing todos\<close>

lemma json_member_row_json: "json_member (row_json r) k = map_option sqlval_json (field r k)"
  by (induction r) (auto simp: json_member_def row_json_def field_def)

lemma pg_set_completed_twice:
  "pg_set_completed ident (snd (pg_set_completed ident db)) = pg_set_completed ident db"
proof (cases db)
  case None
  then show ?thesis by (simp add: pg_set_completed_def)
next
  case (Some t)
  show ?thesis
  proof (cases "''completed'' \<in> set (t_cols t)")
    case False
    with Some show ?thesis by (simp add: pg_set_completed_def)
  next
    case True
    show ?thesis
    proof (cases "int4_in ident")
      case (Inl m)
      with Some True show ?thesis by (simp add: pg_set_completed_def)
    next
      case (Inr n)
      let ?s = "set_field ''completed'' (SBool True)"
      let ?f = "\<lambda>r. if has_id n r then ?s r else r"
      have f: "?f (?f r) = ?f r" for r
        by (simp add: has_id_set_field set_field_idem)
      have h: "has_id n (?f r) = has_id n r" for r
        by (simp add: has_id_set_field)
      have st: "map ?f (map ?f (t_rows t)) = map ?f (t_rows t)"
        using f by (simp add: comp_def)
      have "filter (has_id n) (map ?f (t_rows t)) = map ?f (filter (has_id n) (t_rows t))"
        using h by (simp add: filter_map comp_def)
      also have "\<dots> = map ?s (filter (has_id n) (t_rows t))"
        by (rule map_cong) auto
      finally have "map ?s (filter (has_id n) (map ?f (t_rows t))) =
          map ?s (filter (has_id n) (t_rows t))"
        by (simp add: set_field_idem comp_def)
      with Some True Inr st show ?thesis
        by (simp add: pg_set_completed_def)
    qed
  qed
qed

lemma patch_complete_twice:
  "patch_complete (pg other) ident (snd (patch_complete (pg other) ident db)) =
   patch_complete (pg other) ident db"
proof -
  obtain r d where e: "pg_set_completed ident db = (r, d)"
    by (cases "pg_set_completed ident db")
  with pg_set_completed_twice [of ident db] have "pg_set_completed ident d = (r, d)" by simp
  with e show ?thesis by (cases r) (simp_all add: patch_complete_def)
qed

text \<open>
  C8, as stated, fails on the table the application creates for itself: it has no
  column \<^verbatim>\<open>completed\<close>, so the \<^verbatim>\<open>UPDATE\<close> throws and \<^verbatim>\<open>PATCH /todos/1/complete\<close>
  answers 500 although the row with id 1 exists.
\<close>

theorem patch_complete_counterexample:
  "snd (post_todos (pg unsupported) (Some ''a'') None) = Some healed_table \<and>
   t_rows healed_table = [[(''id'', SInt 1), (''text'', SStr ''a'')]] \<and>
   patch_complete (pg unsupported) ''1'' (Some healed_table) =
     (\<lparr>status = 500, body = JObj [(''error'', JStr undefined_completed)]\<rparr>,
      Some healed_table)"
  by (simp add: post_todos_def pg_insert_def pg_create_def todos_columns_def
      undefined_table_def missing_relation_def healed_table_def Let_def
      patch_complete_def pg_set_completed_def res_error_def)

text \<open>
  C8, amended. On a table that has the column \<^verbatim>\<open>completed\<close>, for the id of an
  existing row, \<^verbatim>\<open>PATCH /todos/:id/complete\<close> answers 200 with that row, its member
  \<^verbatim>\<open>completed\<close> being \<^verbatim>\<open>true\<close> and its other members as they were; a second call
  answers the same and leaves the store as the first left it.
\<close>

theorem patch_complete_idempotent:
  assumes "wf_table t" and "''completed'' \<in> set (t_cols t)"
    and "int4_in ident = Inr n" and "r \<in> set (t_rows t)" and "has_id n r"
  shows "\<exists>r'. fst (patch_complete (pg other) ident (Some t)) =
             \<lparr>status = 200, body = row_json r'\<rparr> \<and>
           json_member (row_json r') ''completed'' = Some (JBool True) \<and>
           (\<forall>k. k \<noteq> ''completed'' \<longrightarrow> field r' k = field r k) \<and>
           patch_complete (pg other) ident (snd (patch_complete (pg other) ident (Some t))) =
             patch_complete (pg other) ident (Some t)"
proof -
  let ?r' = "set_field ''completed'' (SBool True) r"
  from assms(1) have d: "distinct (map row_id (t_rows t))"
    and c: "map fst r = t_cols t"
    using assms(4) by (simp_all add: wf_table_def)
  have "has_id n = (\<lambda>x. row_id x = row_id r)"
    using assms(5) by (simp add: fun_eq_iff has_id_row_id)
  with filter_key_single [OF d assms(4)] have one: "filter (has_id n) (t_rows t) = [r]"
    by simp
  have resp: "fst (patch_complete (pg other) ident (Some t)) =
      \<lparr>status = 200, body = row_json ?r'\<rparr>"
    using assms(2,3) one
    by (simp add: patch_complete_def pg_set_completed_def first_row_def res_json_def)
  from c assms(2) have "''completed'' \<in> set (map fst r)" by simp
  then have "field ?r' ''completed'' = Some (SBool True)"
    by (rule field_set_field_same)
  then have compl: "json_member (row_json ?r') ''completed'' = Some (JBool True)"
    by (simp add: json_member_row_json)
  have rest: "\<forall>k. k \<noteq> ''completed'' \<longrightarrow> field ?r' k = field r k"
    by (simp add: field_set_field_other)
  from resp compl rest patch_complete_twice [of other ident "Some t"] show ?thesis
    by blast
qed

lemma wf_full_table: "wf_table full_table"
  by (simp add: wf_table_def full_table_def row_id_def field_def)

theorem patch_complete_idempotent_witness:
  "fst (patch_complete (pg unsupported) ''1'' (Some full_table)) =
     \<lparr>status = 200,
      body = JObj [(''id'', JNum 1), (''text'', JStr ''Buy Milk''),
                   (''completed'', JBool True), (''created_at'', JNull)]\<rparr> \<and>
   patch_complete (pg unsupported) ''1''
       (snd (patch_complete (pg unsupported) ''1'' (Some full_table))) =
     patch_complete (pg unsupported) ''1'' (Some full_table)"
proof -
  let ?r = "[(''id'', SInt 1), (''text'', SStr ''Buy Milk''),
             (''completed'', SNull), (''created_at'', SNull)]"
  have a: "''completed'' \<in> set (t_cols full_table)" by (simp add: full_table_def)
  have b: "?r \<in> set (t_rows full_table)" by (simp add: full_table_def)
  have c: "has_id 1 ?r" by (simp add: has_id_def field_def)
  from patch_complete_idempotent [OF wf_full_table a int4_in_1 b c, of unsupported]
  have "patch_complete (pg unsupported) ''1''
       (snd (patch_complete (pg unsupported) ''1'' (Some full_table))) =
     patch_complete (pg unsupported) ''1'' (Some full_table)"
    by blast
  moreover have "fst (patch_complete (pg unsupported) ''1'' (Some full_table)) =
     \<lparr>status = 200,
      body = JObj [(''id'', JNum 1), (''text'', JStr ''Buy Milk''),
                   (''completed'', JBool True), (''created_at'', JNull)]\<rparr>"
    by (simp add: patch_complete_def pg_set_completed_def int4_in_1 full_table_def
        has_id_def field_def set_field_def first_row_def row_json_def res_json_def)
  ultimately show ?thesis by blast
qed

section \<open>Searching todos\<close>














section \<open>Adding a todo in the client\<close>

lemma trim_empty_iff: "trim s = [] \<longleftrightarrow> (\<forall>c \<in> set s. is_ws c)"
proof
  assume "trim s = []"
  then have "dropWhile is_ws (rev (dropWhile is_ws s)) = []" by (simp add: trim_def)
  then have "\<forall>c \<in> set (rev (dropWhile is_ws s)). is_ws c" by (simp add: dropWhile_eq_Nil_conv)
  then have a: "\<forall>c \<in> set (dropWhile is_ws s). is_ws c" by simp
  have "dropWhile is_ws s = []"
  proof (rule ccontr)
    assume n: "dropWhile is_ws s \<noteq> []"
    then have "\<not> is_ws (hd (dropWhile is_ws s))" by (rule hd_dropWhile)
    moreover from n have "hd (dropWhile is_ws s) \<in> set (dropWhile is_ws s)" by simp
    ultimately show False using a by blast
  qed
  then show "\<forall>c \<in> set s. is_ws c" by (simp add: dropWhile_eq_Nil_conv)
next
  assume "\<forall>c \<in> set s. is_ws c"
  then have d: "dropWhile is_ws s = []" by (simp add: dropWhile_eq_Nil_conv)
  show "trim s = []" unfolding trim_def d by simp
qed

lemma trim_decompose:
  "\<exists>l r. s = l @ trim s @ r \<and> (\<forall>c \<in> set l. is_ws c) \<and> (\<forall>c \<in> set r. is_ws c)"
proof -
  let ?m = "dropWhile is_ws s"
  have 1: "s = takeWhile is_ws s @ ?m" by simp
  have "rev ?m = takeWhile is_ws (rev ?m) @ dropWhile is_ws (rev ?m)" by simp
  then have "?m = rev (dropWhile is_ws (rev ?m)) @ rev (takeWhile is_ws (rev ?m))"
    by (metis rev_append rev_rev_ident)
  then have 2: "?m = trim s @ rev (takeWhile is_ws (rev ?m))" by (simp add: trim_def)
  have l: "\<forall>c \<in> set (takeWhile is_ws s). is_ws c" by (auto dest: set_takeWhileD)
  have r: "\<forall>c \<in> set (rev (takeWhile is_ws (rev ?m))). is_ws c" by (auto dest: set_takeWhileD)
  from 1 2 have "s = takeWhile is_ws s @ trim s @ rev (takeWhile is_ws (rev ?m))" by simp
  with l r show ?thesis by blast
qed

lemma trim_ends:
  "trim s \<noteq> [] \<Longrightarrow> \<not> is_ws (hd (trim s)) \<and> \<not> is_ws (last (trim s))"
proof -
  assume n: "trim s \<noteq> []"
  let ?m = "dropWhile is_ws s"
  let ?k = "dropWhile is_ws (rev ?m)"
  from n have k: "?k \<noteq> []" by (simp add: trim_def)
  then have "\<not> is_ws (hd ?k)" by (rule hd_dropWhile)
  with k have la: "\<not> is_ws (last (trim s))" by (simp add: trim_def last_rev)
  have m: "?m \<noteq> []"
  proof
    assume e: "?m = []"
    have "?k = []" unfolding e by simp
    with k show False by blast
  qed
  then have hm: "\<not> is_ws (hd ?m)" by (rule hd_dropWhile)
  from trim_decompose [of ?m] obtain l r where
    d: "?m = l @ trim ?m @ r" and l: "\<forall>c \<in> set l. is_ws c" by blast
  have tt: "trim ?m = trim s" by (simp add: trim_def dropWhile_idem)
  have "l = []"
  proof (rule ccontr)
    assume "l \<noteq> []"
    with d have "hd ?m = hd l" by (metis hd_append2)
    with l \<open>l \<noteq> []\<close> hm show False by (metis hd_in_set)
  qed
  with d tt n have "hd ?m = hd (trim s)" by (metis append_Nil hd_append2)
  with hm la show ?thesis by simp
qed

text \<open>
  C9. \<^verbatim>\<open>addTodo\<close> sends a request exactly when the trimmed input is not empty, and
  then one: a \<^verbatim>\<open>POST\<close> whose body is the trimmed text. When the server returns an
  object, that object is appended to \<^verbatim>\<open>todos\<close> and the input is cleared; when the
  request fails, and when the trimmed input is empty, the state is unchanged.
\<close>

theorem addTodo_semantics:
  "(trim (input st) \<noteq> [] \<longrightarrow>
      fst (snd (addTodo net st)) = [post_request (trim (input st))] \<and>
      (\<forall>obj. net (post_request (trim (input st))) = Inr obj \<longrightarrow>
         fst (addTodo net st) = st\<lparr>todos := todos st @ [obj], input := []\<rparr>) \<and>
      (\<forall>e. net (post_request (trim (input st))) = Inl e \<longrightarrow> fst (addTodo net st) = st)) \<and>
   (trim (input st) = [] \<longrightarrow> fst (snd (addTodo net st)) = [] \<and> fst (addTodo net st) = st) \<and>
   verb (post_request s) = ''POST'' \<and>
   payload (post_request s) = Some (JObj [(''text'', JStr s)])"
  by (auto simp: addTodo_def post_request_def Let_def split: sum.splits)

theorem addTodo_semantics_witness:
  "trim ''  hi '' = ''hi'' \<and>
   addTodo (\<lambda>r. Inr (JObj [(''id'', JNum 1), (''text'', JStr ''hi'')]))
       \<lparr>todos = [], input = ''  hi ''\<rparr> =
     (\<lparr>todos = [JObj [(''id'', JNum 1), (''text'', JStr ''hi'')]], input = []\<rparr>,
      [post_request ''hi''], []) \<and>
   fst (addTodo (\<lambda>r. Inl ''Failed to fetch'') \<lparr>todos = [], input = ''  hi ''\<rparr>) =
     \<lparr>todos = [], input = ''  hi ''\<rparr> \<and>
   trim '' '' = [] \<and>
   fst (addTodo (\<lambda>r. Inr JNull) \<lparr>todos = [], input = '' ''\<rparr>) =
     \<lparr>todos = [], input = '' ''\<rparr> \<and>
   fst (snd (addTodo (\<lambda>r. Inr JNull) \<lparr>todos = [], input = '' ''\<rparr>)) = []"
proof -
  let ?net = "\<lambda>r :: http_request. (Inr (JObj [(''id'', JNum 1), (''text'', JStr ''hi'')]) :: string + json)"
  let ?bad = "\<lambda>r :: http_request. (Inl ''Failed to fetch'' :: string + json)"
  let ?nul = "\<lambda>r :: http_request. (Inr JNull :: string + json)"
  let ?st = "\<lparr>todos = [], input = ''  hi ''\<rparr>"
  let ?sp = "\<lparr>todos = [], input = '' ''\<rparr>"
  have t: "trim ''  hi '' = ''hi''" by (simp add: trim_def is_ws_def)
  have u: "trim '' '' = []" by (simp add: trim_def is_ws_def)
  have n: "trim (input ?st) \<noteq> []" by (simp add: t)
  have e: "trim (input ?sp) = []" by (simp add: u)
  from addTodo_semantics [of ?st ?net] n
  have "fst (snd (addTodo ?net ?st)) = [post_request (trim (input ?st))] \<and>
        fst (addTodo ?net ?st) = ?st\<lparr>todos := todos ?st @ [JObj [(''id'', JNum 1), (''text'', JStr ''hi'')]], input := []\<rparr>"
    by blast
  moreover have "snd (snd (addTodo ?net ?st)) = []" by (simp add: addTodo_def t)
  ultimately have a: "addTodo ?net ?st =
     (\<lparr>todos = [JObj [(''id'', JNum 1), (''text'', JStr ''hi'')]], input = []\<rparr>,
      [post_request ''hi''], [])"
    by (simp add: t prod_eq_iff)
  from addTodo_semantics [of ?st ?bad] n have b: "fst (addTodo ?bad ?st) = ?st" by blast
  from addTodo_semantics [of ?sp ?nul] e
  have c: "fst (addTodo ?nul ?sp) = ?sp \<and> fst (snd (addTodo ?nul ?sp)) = []" by blast
  from t u a b c show ?thesis by blast
qed

end
